theory Spec2Isabelle
  imports Complex_Main "HOL-Library.AList"
begin

section \<open>The gene model of \<^verbatim>\<open>nevopy/neat/genes.py\<close>\<close>

text \<open>
  Node genes and connection genes refer to each other (a node lists its connections, a
  connection names its two end nodes, a hidden node names its two parents), so objects
  live in a store and are named by references. A reference in Python always denotes an
  object, hence the store is a total function from references to objects.

  The type variable \<open>'f\<close> stands for Python's \<^verbatim>\<open>float\<close>: the module stores and passes such
  values on, and computes with them only through the node's own activation function.
\<close>

type_synonym node_ref = nat
type_synonym conn_ref = nat

datatype py_error = NodeIdException | ConnectionIdException | NodeParentsException | TypeError

datatype Type = INPUT | BIAS | HIDDEN | OUTPUT

text \<open>What the \<^verbatim>\<open>id\<close> property of a node can return: an int, a str, or \<^verbatim>\<open>None\<close>.\<close>

datatype node_ident = IntId int | StrId string | NoneId

record 'f NodeGene =
  n_id :: "int option"
  n_type :: Type
  n_initial_activation :: 'f
  n_activation :: 'f
  n_function :: "'f \<Rightarrow> 'f"
  n_parent_connection_nodes :: "(node_ref \<times> node_ref) option"
  in_connections :: "conn_ref list"
  out_connections :: "conn_ref list"
  n_temp_id :: "string option"
  n_debug_info :: "string option"

record 'f ConnectionGene =
  c_id :: "int option"
  c_from_node :: node_ref
  c_to_node :: node_ref
  weight :: 'f
  enabled :: bool
  c_debug_info :: "string option"

record 'f store =
  node_at :: "node_ref \<Rightarrow> 'f NodeGene"
  conn_at :: "conn_ref \<Rightarrow> 'f ConnectionGene"

subsection \<open>NodeGene\<close>

text \<open>
  \<^verbatim>\<open>NodeGene.__init__\<close>. The first argument is the 32 hexadecimal digits that
  \<^verbatim>\<open>uuid.uuid4().hex\<close> yields when the constructor asks for it; the constructor keeps the
  first twelve, and only when no id was given.
\<close>

definition NodeGene_init ::
  "string \<Rightarrow> int option \<Rightarrow> Type \<Rightarrow> ('f \<Rightarrow> 'f) \<Rightarrow> 'f \<Rightarrow> (node_ref \<times> node_ref) option
     \<Rightarrow> string option \<Rightarrow> 'f NodeGene" where
  "NodeGene_init uuid4_hex node_id node_type activation_func initial_activation
       parent_connection_nodes debug_info =
     \<lparr> n_id = node_id,
       n_type = node_type,
       n_initial_activation = initial_activation,
       n_activation = initial_activation,
       n_function = activation_func,
       n_parent_connection_nodes = parent_connection_nodes,
       in_connections = [],
       out_connections = [],
       n_temp_id = (if node_id \<noteq> None then None else Some (take 12 uuid4_hex)),
       n_debug_info = debug_info \<rparr>"

text \<open>The getter of \<^verbatim>\<open>NodeGene.id\<close>: \<^verbatim>\<open>self._id if self._id is not None else self._temp_id\<close>.\<close>

definition NodeGene_id :: "'f NodeGene \<Rightarrow> node_ident" where
  "NodeGene_id n =
     (case n_id n of
        Some i \<Rightarrow> IntId i
      | None \<Rightarrow> (case n_temp_id n of Some s \<Rightarrow> StrId s | None \<Rightarrow> NoneId))"

text \<open>
  The setter of \<^verbatim>\<open>NodeGene.id\<close>. A method that may raise returns the outcome together with
  the object as the call leaves it.
\<close>

definition NodeGene_set_id :: "int \<Rightarrow> 'f NodeGene \<Rightarrow> (py_error + unit) \<times> 'f NodeGene" where
  "NodeGene_set_id new_id n =
     (if n_id n \<noteq> None then (Inl NodeIdException, n)
      else (Inr (), n\<lparr>n_id := Some new_id, n_temp_id := None\<rparr>))"

definition is_id_temp :: "'f NodeGene \<Rightarrow> bool" where
  "is_id_temp n = (n_id n = None)"

definition parent_connection_nodes ::
  "'f NodeGene \<Rightarrow> py_error + (node_ref \<times> node_ref) option" where
  "parent_connection_nodes n =
     (if n_type n \<noteq> HIDDEN then Inl NodeParentsException
      else Inr (n_parent_connection_nodes n))"

definition activate :: "'f \<Rightarrow> 'f NodeGene \<Rightarrow> 'f NodeGene" where
  "activate x n = n\<lparr>n_activation := n_function n x\<rparr>"

text \<open>\<^verbatim>\<open>shallow_copy\<close> builds a new node, so it takes what \<^verbatim>\<open>uuid4\<close> yields at that moment.\<close>

definition shallow_copy :: "string \<Rightarrow> string option \<Rightarrow> 'f NodeGene \<Rightarrow> 'f NodeGene" where
  "shallow_copy uuid4_hex debug_info n =
     NodeGene_init uuid4_hex (n_id n) (n_type n) (n_function n) (n_initial_activation n)
       (n_parent_connection_nodes n) debug_info"

definition reset_activation :: "'f NodeGene \<Rightarrow> 'f NodeGene" where
  "reset_activation n = n\<lparr>n_activation := n_initial_activation n\<rparr>"

subsection \<open>ConnectionGene\<close>

definition ConnectionGene_init ::
  "int option \<Rightarrow> node_ref \<Rightarrow> node_ref \<Rightarrow> 'f \<Rightarrow> bool \<Rightarrow> string option \<Rightarrow> 'f ConnectionGene" where
  "ConnectionGene_init cid from_node to_node w en debug_info =
     \<lparr> c_id = cid, c_from_node = from_node, c_to_node = to_node,
       weight = w, enabled = en, c_debug_info = debug_info \<rparr>"

definition ConnectionGene_id :: "'f ConnectionGene \<Rightarrow> int option" where
  "ConnectionGene_id c = c_id c"

definition ConnectionGene_set_id ::
  "int \<Rightarrow> 'f ConnectionGene \<Rightarrow> (py_error + unit) \<times> 'f ConnectionGene" where
  "ConnectionGene_set_id new_id c =
     (if c_id c \<noteq> None then (Inl ConnectionIdException, c)
      else (Inr (), c\<lparr>c_id := Some new_id\<rparr>))"

definition from_node :: "'f ConnectionGene \<Rightarrow> node_ref" where
  "from_node c = c_from_node c"

definition to_node :: "'f ConnectionGene \<Rightarrow> node_ref" where
  "to_node c = c_to_node c"

subsection \<open>connection_exists\<close>

text \<open>
  The loop runs over \<^verbatim>\<open>zip(dest_node.in_connections, src_node.out_connections)\<close>: it sees the
  two lists in step and stops when the shorter one ends.
\<close>

fun connection_exists_loop ::
  "'f store \<Rightarrow> node_ref \<Rightarrow> node_ref \<Rightarrow> conn_ref list \<Rightarrow> conn_ref list \<Rightarrow> bool" where
  "connection_exists_loop s src_node dest_node (dest_cin # cins) (src_cout # couts) =
     (if NodeGene_id (node_at s (from_node (conn_at s dest_cin))) = NodeGene_id (node_at s src_node)
         \<or> NodeGene_id (node_at s (to_node (conn_at s src_cout))) = NodeGene_id (node_at s dest_node)
      then True
      else connection_exists_loop s src_node dest_node cins couts)"
| "connection_exists_loop s src_node dest_node _ _ = False"

definition connection_exists :: "'f store \<Rightarrow> node_ref \<Rightarrow> node_ref \<Rightarrow> bool" where
  "connection_exists s src_node dest_node =
     connection_exists_loop s src_node dest_node
       (in_connections (node_at s dest_node)) (out_connections (node_at s src_node))"

subsection \<open>align_connections\<close>

text \<open>
  A dict is an association list with distinct keys in insertion order; storing under a key
  that is present replaces its value, as \<^verbatim>\<open>{c.id: c for c in con_list}\<close> does.
\<close>

definition con_dict :: "'f store \<Rightarrow> conn_ref list \<Rightarrow> (int option \<times> conn_ref) list" where
  "con_dict s con_list =
     fold (\<lambda>c d. AList.update (ConnectionGene_id (conn_at s c)) c d) con_list []"

text \<open>
  \<^verbatim>\<open>sorted\<close> on a duplicate-free list of keys. Python orders ints, and raises \<^verbatim>\<open>TypeError\<close>
  as soon as it has to compare \<^verbatim>\<open>None\<close> with anything, which happens whenever \<^verbatim>\<open>None\<close> is one
  of two or more keys.
\<close>

definition py_sorted :: "int option list \<Rightarrow> py_error + int option list" where
  "py_sorted ks =
     (if None \<in> set ks then (if length ks \<le> 1 then Inr ks else Inl TypeError)
      else Inr (map Some (sort (map the ks))))"

text \<open>
  \<^verbatim>\<open>align_connections\<close>, without the debugging printout. The set of keys of both dicts is
  the duplicate-free list of them; an entry of a result list is \<open>Some c\<close> for the gene \<open>c\<close>
  and \<open>None\<close> for Python's \<^verbatim>\<open>None\<close>.
\<close>

definition align_connections ::
  "'f store \<Rightarrow> conn_ref list \<Rightarrow> conn_ref list
     \<Rightarrow> py_error + (conn_ref option list \<times> conn_ref option list)" where
  "align_connections s con_list1 con_list2 =
     (let con_dict1 = con_dict s con_list1;
          con_dict2 = con_dict s con_list2
      in case py_sorted (remdups (map fst con_dict1 @ map fst con_dict2)) of
           Inl e \<Rightarrow> Inl e
         | Inr union_ids \<Rightarrow>
             Inr (map (\<lambda>cid. map_of con_dict1 cid) union_ids,
                  map (\<lambda>cid. map_of con_dict2 cid) union_ids))"

subsection \<open>Calls on a node between its construction and a later read\<close>

text \<open>
  What a caller can do to a node gene through this module: the two activation methods,
  the id setter (an attempt that raises leaves the node as it was), and appending a
  connection to one of the two public adjacency lists.
\<close>

datatype 'f node_call =
  Activate 'f | ResetActivation | SetId int | AppendIn conn_ref | AppendOut conn_ref

fun apply_call :: "'f node_call \<Rightarrow> 'f NodeGene \<Rightarrow> 'f NodeGene" where
  "apply_call (Activate x) n = activate x n"
| "apply_call ResetActivation n = reset_activation n"
| "apply_call (SetId i) n = snd (NodeGene_set_id i n)"
| "apply_call (AppendIn c) n = n\<lparr>in_connections := in_connections n @ [c]\<rparr>"
| "apply_call (AppendOut c) n = n\<lparr>out_connections := out_connections n @ [c]\<rparr>"

subsection \<open>Concrete genes used in the examples\<close>

text \<open>Two draws of \<^verbatim>\<open>uuid4().hex\<close> that differ, but not in their first twelve digits.\<close>

definition uuid_a :: string where
  "uuid_a = ''3f2b8c1d9e7a4a6b8c0d1e2f3a4b5c6d''"

definition uuid_b :: string where
  "uuid_b = ''3f2b8c1d9e7a4fff9a0b1c2d3e4f5a6b''"

text \<open>
  A store with an input node 0, an output node 1 and the connection 0 from node 0 to
  node 1. In \<open>store_out_only\<close> the connection has been appended to the outgoing list of
  node 0 only, in \<open>store_in_only\<close> to the incoming list of node 1 only.
\<close>

definition node0 :: "real NodeGene" where
  "node0 = NodeGene_init uuid_a (Some 0) INPUT id 0 None None"

definition node1 :: "real NodeGene" where
  "node1 = NodeGene_init uuid_b (Some 1) OUTPUT id 0 None None"

definition conn01 :: "real ConnectionGene" where
  "conn01 = ConnectionGene_init (Some 0) 0 1 1 True None"

definition store_fresh :: "real store" where
  "store_fresh = \<lparr> node_at = (\<lambda>r. if r = 0 then node0 else node1), conn_at = (\<lambda>r. conn01) \<rparr>"

definition store_out_only :: "real store" where
  "store_out_only =
     \<lparr> node_at = (\<lambda>r. if r = 0 then apply_call (AppendOut 0) node0 else node1),
       conn_at = (\<lambda>r. conn01) \<rparr>"

definition store_in_only :: "real store" where
  "store_in_only =
     \<lparr> node_at = (\<lambda>r. if r = 0 then node0 else apply_call (AppendIn 0) node1),
       conn_at = (\<lambda>r. conn01) \<rparr>"

text \<open>
  Six connection genes: 0, 1, 2 with the ids 1, 3, 5 and 3, 4, 5 with the ids 2, 3, 4.
\<close>

definition store_align :: "real store" where
  "store_align =
     \<lparr> node_at = (\<lambda>r. if r = 0 then node0 else node1),
       conn_at = (\<lambda>r. ConnectionGene_init
          (Some (if r = 0 then 1 else if r = 1 then 3 else if r = 2 then 5
                 else if r = 3 then 2 else if r = 4 then 3 else 4)) 0 1 1 True None) \<rparr>"

section \<open>Facts about the calls\<close>

lemma activate_keeps:
  "n_initial_activation (activate x n) = n_initial_activation n"
  "n_type (activate x n) = n_type n"
  "n_parent_connection_nodes (activate x n) = n_parent_connection_nodes n"
  by (simp_all add: activate_def)

lemma fold_activate_initial:
  "n_initial_activation (fold activate xs n) = n_initial_activation n"
  by (induction xs arbitrary: n) (simp_all add: activate_keeps)

lemma apply_call_keeps:
  "n_type (apply_call k n) = n_type n"
  "n_parent_connection_nodes (apply_call k n) = n_parent_connection_nodes n"
  by (cases k; simp add: activate_def reset_activation_def NodeGene_set_id_def)+

lemma fold_apply_call_keeps:
  "n_type (fold apply_call ks n) = n_type n"
  "n_parent_connection_nodes (fold apply_call ks n) = n_parent_connection_nodes n"
  by (induction ks arbitrary: n) (simp_all add: apply_call_keeps)

section \<open>Identity of a gene\<close>

text \<open>
  C4. Once a node gene or a connection gene has its permanent id, every further call of
  the id setter raises (NodeIdException for a node, ConnectionIdException for a
  connection) and leaves the gene as it was: reading the id still gives the first value.
\<close>

theorem id_set_twice_raises:
  assumes "n_id n = Some v" and "c_id c = Some u"
  shows "fst (NodeGene_set_id w n) = Inl NodeIdException
       \<and> snd (NodeGene_set_id w n) = n
       \<and> NodeGene_id (snd (NodeGene_set_id w n)) = IntId v
       \<and> fst (ConnectionGene_set_id w c) = Inl ConnectionIdException
       \<and> snd (ConnectionGene_set_id w c) = c
       \<and> ConnectionGene_id (snd (ConnectionGene_set_id w c)) = Some u"
  using assms
  by (simp add: NodeGene_set_id_def NodeGene_id_def ConnectionGene_set_id_def
      ConnectionGene_id_def)

text \<open>
  The same on a hidden node and a connection that were built without an id and resolved
  to 5 and 8: the second resolution, to 6 and 9, raises and the ids stay 5 and 8.
\<close>

theorem id_set_twice_raises_witness:
  "n_id (snd (NodeGene_set_id 5 (NodeGene_init uuid_a None HIDDEN id (0::real) (Some (0, 1)) None)))
     = Some 5
   \<and> c_id (snd (ConnectionGene_set_id 8 (ConnectionGene_init None 0 1 (1::real) True None)))
     = Some 8
   \<and> fst (NodeGene_set_id 6
        (snd (NodeGene_set_id 5 (NodeGene_init uuid_a None HIDDEN id (0::real) (Some (0, 1)) None))))
     = Inl NodeIdException
   \<and> NodeGene_id (snd (NodeGene_set_id 6
        (snd (NodeGene_set_id 5 (NodeGene_init uuid_a None HIDDEN id (0::real) (Some (0, 1)) None)))))
     = IntId 5
   \<and> fst (ConnectionGene_set_id 9
        (snd (ConnectionGene_set_id 8 (ConnectionGene_init None 0 1 (1::real) True None))))
     = Inl ConnectionIdException
   \<and> ConnectionGene_id (snd (ConnectionGene_set_id 9
        (snd (ConnectionGene_set_id 8 (ConnectionGene_init None 0 1 (1::real) True None)))))
     = Some 8"
proof -
  let ?n = "snd (NodeGene_set_id 5
              (NodeGene_init uuid_a None HIDDEN id (0::real) (Some (0, 1)) None))"
  let ?c = "snd (ConnectionGene_set_id 8 (ConnectionGene_init None 0 1 (1::real) True None))"
  have n: "n_id ?n = Some 5"
    by (simp add: NodeGene_set_id_def NodeGene_init_def)
  have c: "c_id ?c = Some 8"
    by (simp add: ConnectionGene_set_id_def ConnectionGene_init_def)
  from id_set_twice_raises [OF n c, of 6] id_set_twice_raises [OF n c, of 9] n c
  show ?thesis by blast
qed

text \<open>
  C9. A connection gene built with \<^verbatim>\<open>cid = None\<close> reads \<^verbatim>\<open>None\<close> as its id (an \<open>int option\<close>:
  there is no provisional token, where a node built without an id reads its token), it
  still reads \<^verbatim>\<open>None\<close> after its weight and its enabled flag were changed, and once the
  setter has assigned an integer the id reads that integer.
\<close>

theorem connection_id_none_until_set:
  "ConnectionGene_id (ConnectionGene_init None fr to w en dbg) = None
   \<and> ConnectionGene_id ((ConnectionGene_init None fr to w en dbg)\<lparr>weight := w', enabled := en'\<rparr>)
       = None
   \<and> fst (ConnectionGene_set_id i (ConnectionGene_init None fr to w en dbg)) = Inr ()
   \<and> ConnectionGene_id (snd (ConnectionGene_set_id i (ConnectionGene_init None fr to w en dbg)))
       = Some i
   \<and> NodeGene_id (NodeGene_init u None t f a pp dbg') = StrId (take 12 u)"
  by (simp add: ConnectionGene_id_def ConnectionGene_init_def ConnectionGene_set_id_def
      NodeGene_id_def NodeGene_init_def)

section \<open>Parents of a node\<close>

text \<open>
  C6. Reading \<^verbatim>\<open>parent_connection_nodes\<close> of a node whose type is INPUT, BIAS or OUTPUT
  raises NodeParentsException; on a HIDDEN node that was constructed with a pair of
  parents it returns that pair. Both hold whatever was called on the node in between.
\<close>

theorem parent_connection_nodes_by_type:
  "(n_type n \<in> {INPUT, BIAS, OUTPUT} \<longrightarrow>
      parent_connection_nodes n = Inl NodeParentsException
      \<and> parent_connection_nodes (fold apply_call ks n) = Inl NodeParentsException)
   \<and> parent_connection_nodes (NodeGene_init u nid HIDDEN f a (Some (p, q)) dbg) = Inr (Some (p, q))
   \<and> parent_connection_nodes (fold apply_call ks (NodeGene_init u nid HIDDEN f a (Some (p, q)) dbg))
       = Inr (Some (p, q))"
proof -
  have "n_type (NodeGene_init u nid HIDDEN f a (Some (p, q)) dbg) = HIDDEN"
    and "n_parent_connection_nodes (NodeGene_init u nid HIDDEN f a (Some (p, q)) dbg)
           = Some (p, q)"
    by (simp_all add: NodeGene_init_def)
  then show ?thesis
    by (auto simp add: parent_connection_nodes_def fold_apply_call_keeps)
qed

theorem parent_connection_nodes_by_type_witness:
  "n_type node1 \<in> {INPUT, BIAS, OUTPUT}
   \<and> parent_connection_nodes node1 = Inl NodeParentsException
   \<and> parent_connection_nodes (fold apply_call [Activate 2, SetId 4, AppendIn 0] node1)
       = Inl NodeParentsException"
proof -
  have t: "n_type node1 \<in> {INPUT, BIAS, OUTPUT}"
    by (simp add: node1_def NodeGene_init_def)
  with parent_connection_nodes_by_type [of node1 "[Activate 2, SetId 4, AppendIn 0]"]
  show ?thesis by blast
qed

section \<open>The cached activation\<close>

text \<open>
  C8. After any finite sequence of \<^verbatim>\<open>activate\<close> calls on a node, \<^verbatim>\<open>reset_activation\<close> leaves
  the cached activation equal to the initial activation the node was constructed with.
\<close>

theorem reset_activation_restores_initial:
  "n_activation (reset_activation (fold activate xs (NodeGene_init u nid t f a pp dbg))) = a"
  by (simp add: reset_activation_def fold_activate_initial) (simp add: NodeGene_init_def)

text \<open>
  C10. The cached activation of a shallow copy is the initial activation of the node it
  was copied from, whatever \<^verbatim>\<open>activate\<close> calls the node went through before the copy; the
  value the node had cached at that moment is not carried over.
\<close>

theorem shallow_copy_activation_is_initial:
  "n_activation (shallow_copy u dbg (fold activate xs n)) = n_initial_activation n
   \<and> n_activation (shallow_copy u dbg
        (fold activate xs (NodeGene_init u' nid t f a pp dbg'))) = a"
  by (simp add: shallow_copy_def fold_activate_initial NodeGene_init_def)

section \<open>Shallow copies\<close>

text \<open>
  C7, as the code has it. A shallow copy has two empty adjacency lists and the type,
  activation function, initial activation and pair of parents of its source. It has the
  permanent id of the source if the source has one; otherwise its provisional token is
  the first twelve digits of a newly drawn \<^verbatim>\<open>uuid4().hex\<close>, which differs from the
  source's token whenever those twelve digits do. Nothing compares the new token with
  the old one.
\<close>

theorem shallow_copy_fields:
  "in_connections (shallow_copy u dbg n) = []
   \<and> out_connections (shallow_copy u dbg n) = []
   \<and> n_type (shallow_copy u dbg n) = n_type n
   \<and> n_function (shallow_copy u dbg n) = n_function n
   \<and> n_initial_activation (shallow_copy u dbg n) = n_initial_activation n
   \<and> n_parent_connection_nodes (shallow_copy u dbg n) = n_parent_connection_nodes n
   \<and> n_id (shallow_copy u dbg n) = n_id n
   \<and> n_temp_id (shallow_copy u dbg n) = (if n_id n = None then Some (take 12 u) else None)
   \<and> NodeGene_id (shallow_copy u dbg n)
       = (case n_id n of Some i \<Rightarrow> IntId i | None \<Rightarrow> StrId (take 12 u))
   \<and> (n_id n = None \<and> n_temp_id n \<noteq> Some (take 12 u)
        \<longrightarrow> NodeGene_id (shallow_copy u dbg n) \<noteq> NodeGene_id n)"
  by (auto simp add: shallow_copy_def NodeGene_init_def NodeGene_id_def split: option.splits)

text \<open>
  A hidden node without an id whose adjacency lists are filled, copied at a draw whose
  first twelve digits differ from the node's token.
\<close>

theorem shallow_copy_fields_witness:
  "n_id (fold apply_call [AppendIn 0, AppendOut 1]
           (NodeGene_init uuid_a None HIDDEN id (0::real) (Some (0, 1)) None)) = None
   \<and> n_temp_id (fold apply_call [AppendIn 0, AppendOut 1]
           (NodeGene_init uuid_a None HIDDEN id (0::real) (Some (0, 1)) None))
        \<noteq> Some (take 12 ''c0ffee00c0de4abc8def0123456789ab'')
   \<and> in_connections (shallow_copy ''c0ffee00c0de4abc8def0123456789ab'' None
        (fold apply_call [AppendIn 0, AppendOut 1]
           (NodeGene_init uuid_a None HIDDEN id (0::real) (Some (0, 1)) None))) = []
   \<and> NodeGene_id (shallow_copy ''c0ffee00c0de4abc8def0123456789ab'' None
        (fold apply_call [AppendIn 0, AppendOut 1]
           (NodeGene_init uuid_a None HIDDEN id (0::real) (Some (0, 1)) None)))
       \<noteq> NodeGene_id (fold apply_call [AppendIn 0, AppendOut 1]
           (NodeGene_init uuid_a None HIDDEN id (0::real) (Some (0, 1)) None))"
proof -
  let ?n = "fold apply_call [AppendIn 0, AppendOut 1]
              (NodeGene_init uuid_a None HIDDEN id (0::real) (Some (0, 1)) None)"
  have a: "n_id ?n = None"
    by (simp add: NodeGene_init_def)
  have b: "n_temp_id ?n \<noteq> Some (take 12 ''c0ffee00c0de4abc8def0123456789ab'')"
    by (simp add: NodeGene_init_def uuid_a_def)
  from shallow_copy_fields [of "''c0ffee00c0de4abc8def0123456789ab''" None ?n] a b
  show ?thesis by blast
qed

text \<open>
  The copy's token is not always distinct from the source's: a node built at the draw
  \<open>uuid_a\<close> and copied at the different draw \<open>uuid_b\<close> has a copy that reads the same id.
\<close>

theorem shallow_copy_token_counterexample:
  "uuid_a \<noteq> uuid_b
   \<and> is_id_temp (NodeGene_init uuid_a None HIDDEN id (0::real) (Some (0, 1)) None)
   \<and> NodeGene_id (shallow_copy uuid_b None
        (NodeGene_init uuid_a None HIDDEN id (0::real) (Some (0, 1)) None))
       = NodeGene_id (NodeGene_init uuid_a None HIDDEN id (0::real) (Some (0, 1)) None)"
  by (simp add: uuid_a_def uuid_b_def is_id_temp_def shallow_copy_def NodeGene_init_def
      NodeGene_id_def)

section \<open>connection_exists\<close>

text \<open>
  C3. On two new nodes without connections \<^verbatim>\<open>connection_exists\<close> is false. It is still false
  when the connection from node 0 to node 1 has been appended to the outgoing list of
  node 0 only, and when it has been appended to the incoming list of node 1 only: the
  loop pairs the two lists up, and one of them being empty it has nothing to look at.
\<close>

theorem connection_exists_one_sided:
  "connection_exists store_fresh 0 1 = False
   \<and> out_connections (node_at store_out_only 0) = [0]
   \<and> from_node (conn_at store_out_only 0) = 0 \<and> to_node (conn_at store_out_only 0) = 1
   \<and> connection_exists store_out_only 0 1 = False
   \<and> in_connections (node_at store_in_only 1) = [0]
   \<and> from_node (conn_at store_in_only 0) = 0 \<and> to_node (conn_at store_in_only 0) = 1
   \<and> connection_exists store_in_only 0 1 = False"
  by (simp add: connection_exists_def store_fresh_def store_out_only_def store_in_only_def
      node0_def node1_def conn01_def NodeGene_init_def ConnectionGene_init_def
      from_node_def to_node_def)

section \<open>align_connections\<close>

subsection \<open>The dict built from a list of genes\<close>

lemma fold_update_map_of:
  "map_of (fold (\<lambda>c d. AList.update (k c) c d) l d0)
     = map_of d0 ++ map_of (rev (map (\<lambda>c. (k c, c)) l))"
proof (induction l arbitrary: d0)
  case Nil
  then show ?case by simp
next
  case (Cons x xs)
  show ?case
    by (auto simp add: Cons.IH update_conv' map_add_def fun_eq_iff split: option.splits)
qed

lemma fold_update_keys:
  "fst ` set (fold (\<lambda>c d. AList.update (k c) c d) l d0) = fst ` set d0 \<union> k ` set l"
  by (induction l arbitrary: d0) (auto simp add: dom_update)

lemma fold_update_distinct:
  "distinct (map fst d0) \<Longrightarrow> distinct (map fst (fold (\<lambda>c d. AList.update (k c) c d) l d0))"
  by (induction l arbitrary: d0) (auto simp add: distinct_update)

lemma map_of_keyed:
  "map_of (map (\<lambda>c. (k c, c)) l) x = find (\<lambda>c. k c = x) l"
  by (induction l) auto

lemma find_unique_key:
  "distinct (map f L) \<Longrightarrow> c \<in> set L \<Longrightarrow> find (\<lambda>x. f x = f c) L = Some c"
proof (induction L)
  case Nil
  then show ?case by simp
next
  case (Cons a L)
  show ?case
  proof (cases "a = c")
    case True
    then show ?thesis by simp
  next
    case False
    with Cons.prems have "c \<in> set L" and "f a \<notin> f ` set L" and "distinct (map f L)"
      by simp_all
    then have "f a \<noteq> f c" and "find (\<lambda>x. f x = f c) L = Some c"
      using Cons.IH by (blast, simp)
    then show ?thesis by simp
  qed
qed

lemma con_dict_keys:
  "set (map fst (con_dict s l)) = (\<lambda>c. ConnectionGene_id (conn_at s c)) ` set l"
  by (simp add: con_dict_def fold_update_keys)

lemma con_dict_distinct: "distinct (map fst (con_dict s l))"
  by (simp add: con_dict_def fold_update_distinct)

lemma con_dict_lookup:
  assumes "distinct (map (\<lambda>c. ConnectionGene_id (conn_at s c)) l)"
  shows "map_of (con_dict s l) x = find (\<lambda>c. ConnectionGene_id (conn_at s c) = x) l"
proof -
  let ?g = "\<lambda>c. (ConnectionGene_id (conn_at s c), c)"
  have d: "distinct (map fst (map ?g l))"
    using assms by (simp add: comp_def)
  then have "distinct (map fst (rev (map ?g l)))"
    by (simp add: rev_map[symmetric] del: rev_map)
  with d have "map_of (rev (map ?g l)) = map_of (map ?g l)"
    by (simp add: map_of_inject_set)
  then show ?thesis
    by (simp add: con_dict_def fold_update_map_of map_of_keyed)
qed

lemma con_dict_present:
  "(map_of (con_dict s l) x \<noteq> None) = (x \<in> (\<lambda>c. ConnectionGene_id (conn_at s c)) ` set l)"
  using con_dict_keys [of s l] by (simp add: map_of_eq_None_iff)

subsection \<open>The shape of an alignment\<close>

lemma py_sorted_ints:
  "None \<notin> set ks \<Longrightarrow> py_sorted ks = Inr (map Some (sort (map the ks)))"
  by (simp add: py_sorted_def)

lemma align_shape:
  assumes A: "\<forall>c\<in>set A. ConnectionGene_id (conn_at s c) \<noteq> None"
      and B: "\<forall>c\<in>set B. ConnectionGene_id (conn_at s c) \<noteq> None"
  shows "\<exists>us. sorted us \<and> distinct us
     \<and> Some ` set us = (\<lambda>c. ConnectionGene_id (conn_at s c)) ` (set A \<union> set B)
     \<and> align_connections s A B =
         Inr (map (\<lambda>k. map_of (con_dict s A) (Some k)) us,
              map (\<lambda>k. map_of (con_dict s B) (Some k)) us)"
proof -
  let ?ks = "remdups (map fst (con_dict s A) @ map fst (con_dict s B))"
  let ?us = "sort (map the ?ks)"
  have ks: "set ?ks = (\<lambda>c. ConnectionGene_id (conn_at s c)) ` (set A \<union> set B)"
    using con_dict_keys [of s A] con_dict_keys [of s B] by (simp add: image_Un)
  have nn: "None \<notin> set ?ks"
  proof
    assume "None \<in> set ?ks"
    then have "None \<in> (\<lambda>c. ConnectionGene_id (conn_at s c)) ` (set A \<union> set B)"
      by (simp only: ks)
    then obtain c where "c \<in> set A \<union> set B" "ConnectionGene_id (conn_at s c) = None"
      by (metis imageE)
    with A B show False by blast
  qed
  have some_the: "Some (the x) = x" if "x \<in> set ?ks" for x
  proof -
    from that nn have "x \<noteq> None" by metis
    then show ?thesis by simp
  qed
  have inj: "inj_on the (set ?ks)"
    by (rule inj_on_inverseI [where g = Some]) (rule some_the)
  have "distinct ?us"
    using inj by (simp add: distinct_map)
  moreover have "Some ` set ?us = set ?ks"
  proof -
    have "Some ` set ?us = (\<lambda>x. Some (the x)) ` set ?ks"
      by (simp only: set_sort set_map image_image)
    also have "\<dots> = (\<lambda>x. x) ` set ?ks"
      by (rule image_cong) (simp_all only: some_the)
    finally show ?thesis by simp
  qed
  moreover have "align_connections s A B =
         Inr (map (\<lambda>k. map_of (con_dict s A) (Some k)) ?us,
              map (\<lambda>k. map_of (con_dict s B) (Some k)) ?us)"
    using py_sorted_ints [OF nn] by (simp add: align_connections_def Let_def comp_def)
  ultimately show ?thesis
    using ks by (metis sorted_sort)
qed


subsection \<open>The example of two lists with ids 1, 3, 5 and 2, 3, 4\<close>

lemma store_align_ids:
  "ConnectionGene_id (conn_at store_align r) =
     Some (if r = 0 then 1 else if r = 1 then 3 else if r = 2 then 5
           else if r = 3 then 2 else if r = 4 then 3 else 4)"
  by (simp add: store_align_def ConnectionGene_id_def ConnectionGene_init_def)

lemma store_align_hyps:
  "\<forall>c\<in>set [0, 1, 2]. ConnectionGene_id (conn_at store_align c) \<noteq> None"
  "distinct (map (\<lambda>c. ConnectionGene_id (conn_at store_align c)) [0, 1, 2])"
  "\<forall>c\<in>set [3, 4, 5]. ConnectionGene_id (conn_at store_align c) \<noteq> None"
  "distinct (map (\<lambda>c. ConnectionGene_id (conn_at store_align c)) [3, 4, 5])"
  by (simp_all add: store_align_ids)

lemma store_align_maps:
  "map (\<lambda>c. ConnectionGene_id (conn_at store_align c)) [0, 1, 2] = [Some 1, Some 3, Some 5]"
  "map (\<lambda>c. ConnectionGene_id (conn_at store_align c)) [3, 4, 5] = [Some 2, Some 3, Some 4]"
  by (simp_all add: store_align_ids)

lemma store_align_value:
  "align_connections store_align [0, 1, 2] [3, 4, 5] =
     Inr ([Some 0, None, Some 1, None, Some 2], [None, Some 3, Some 4, Some 5, None])"
  by (simp add: align_connections_def con_dict_def py_sorted_def store_align_ids Let_def)

text \<open>
  C1. For two lists of connection genes in which every gene has an integer id and no id
  occurs twice within a list, \<^verbatim>\<open>align_connections\<close> returns two lists of the same length,
  that length is the number of distinct ids occurring in the two lists together, and at
  every position at least one of the two lists holds a gene.
\<close>

theorem align_lengths:
  assumes "\<forall>c\<in>set A. ConnectionGene_id (conn_at s c) \<noteq> None"
      and "distinct (map (\<lambda>c. ConnectionGene_id (conn_at s c)) A)"
      and "\<forall>c\<in>set B. ConnectionGene_id (conn_at s c) \<noteq> None"
      and "distinct (map (\<lambda>c. ConnectionGene_id (conn_at s c)) B)"
  shows "\<exists>a1 a2. align_connections s A B = Inr (a1, a2)
     \<and> length a1 = length a2
     \<and> length a1 = card ((\<lambda>c. ConnectionGene_id (conn_at s c)) ` (set A \<union> set B))
     \<and> (\<forall>i<length a1. a1 ! i \<noteq> None \<or> a2 ! i \<noteq> None)"
proof -
  from align_shape [OF assms(1) assms(3)] obtain us where
    us: "distinct us"
      "Some ` set us = (\<lambda>c. ConnectionGene_id (conn_at s c)) ` (set A \<union> set B)"
    and al: "align_connections s A B =
         Inr (map (\<lambda>k. map_of (con_dict s A) (Some k)) us,
              map (\<lambda>k. map_of (con_dict s B) (Some k)) us)"
    by blast
  let ?a1 = "map (\<lambda>k. map_of (con_dict s A) (Some k)) us"
  let ?a2 = "map (\<lambda>k. map_of (con_dict s B) (Some k)) us"
  have "card (Some ` set us) = length us"
    using us(1) by (simp add: card_image distinct_card)
  then have len: "length ?a1 = card ((\<lambda>c. ConnectionGene_id (conn_at s c)) ` (set A \<union> set B))"
    by (simp add: us(2))
  have pos: "?a1 ! i \<noteq> None \<or> ?a2 ! i \<noteq> None" if "i < length ?a1" for i
  proof -
    from that have "Some (us ! i) \<in> Some ` set us" by simp
    then have "Some (us ! i) \<in> (\<lambda>c. ConnectionGene_id (conn_at s c)) ` (set A \<union> set B)"
      by (simp only: us(2))
    then have "map_of (con_dict s A) (Some (us ! i)) \<noteq> None
             \<or> map_of (con_dict s B) (Some (us ! i)) \<noteq> None"
      by (simp only: con_dict_present image_Un Un_iff)
    with that show ?thesis by simp
  qed
  from al len pos show ?thesis by auto
qed

text \<open>The lists with ids 1, 3, 5 and 2, 3, 4: five distinct ids, five positions.\<close>

theorem align_lengths_witness:
  "map (\<lambda>c. ConnectionGene_id (conn_at store_align c)) [0, 1, 2] = [Some 1, Some 3, Some 5]
   \<and> map (\<lambda>c. ConnectionGene_id (conn_at store_align c)) [3, 4, 5] = [Some 2, Some 3, Some 4]
   \<and> align_connections store_align [0, 1, 2] [3, 4, 5] =
        Inr ([Some 0, None, Some 1, None, Some 2], [None, Some 3, Some 4, Some 5, None])
   \<and> card ((\<lambda>c. ConnectionGene_id (conn_at store_align c)) ` (set [0, 1, 2] \<union> set [3, 4, 5]))
        = 5"
proof -
  from align_lengths [OF store_align_hyps] obtain a1 a2 where
    a: "align_connections store_align [0, 1, 2] [3, 4, 5] = Inr (a1, a2)"
    and l: "length a1 =
      card ((\<lambda>c. ConnectionGene_id (conn_at store_align c)) ` (set [0, 1, 2] \<union> set [3, 4, 5]))"
    by blast
  from a store_align_value have "a1 = [Some 0, None, Some 1, None, Some 2]"
    by simp
  with l have "card ((\<lambda>c. ConnectionGene_id (conn_at store_align c))
                 ` (set [0, 1, 2] \<union> set [3, 4, 5])) = 5"
    by simp
  with store_align_maps store_align_value show ?thesis by blast
qed

text \<open>
  C5. Under the same conditions, aligning the two lists in the other order gives the
  same two result lists, exchanged.
\<close>

theorem align_swap:
  assumes "\<forall>c\<in>set A. ConnectionGene_id (conn_at s c) \<noteq> None"
      and "distinct (map (\<lambda>c. ConnectionGene_id (conn_at s c)) A)"
      and "\<forall>c\<in>set B. ConnectionGene_id (conn_at s c) \<noteq> None"
      and "distinct (map (\<lambda>c. ConnectionGene_id (conn_at s c)) B)"
  shows "\<exists>a1 a2. align_connections s A B = Inr (a1, a2)
                \<and> align_connections s B A = Inr (a2, a1)"
proof -
  from align_shape [OF assms(1) assms(3)] obtain us where
    us: "sorted us" "distinct us"
      "Some ` set us = (\<lambda>c. ConnectionGene_id (conn_at s c)) ` (set A \<union> set B)"
    and ab: "align_connections s A B =
         Inr (map (\<lambda>k. map_of (con_dict s A) (Some k)) us,
              map (\<lambda>k. map_of (con_dict s B) (Some k)) us)"
    by blast
  from align_shape [OF assms(3) assms(1)] obtain vs where
    vs: "sorted vs" "distinct vs"
      "Some ` set vs = (\<lambda>c. ConnectionGene_id (conn_at s c)) ` (set B \<union> set A)"
    and ba: "align_connections s B A =
         Inr (map (\<lambda>k. map_of (con_dict s B) (Some k)) vs,
              map (\<lambda>k. map_of (con_dict s A) (Some k)) vs)"
    by blast
  have "Some ` set vs = Some ` set us"
    by (simp only: us(3) vs(3) Un_commute)
  then have "set vs = set us"
    by (simp add: inj_image_eq_iff)
  with us vs have "vs = us"
    by (simp add: sorted_distinct_set_unique)
  with ab ba show ?thesis by simp
qed

text \<open>The lists with ids 1, 3, 5 and 2, 3, 4, aligned in both orders.\<close>

theorem align_swap_witness:
  "map (\<lambda>c. ConnectionGene_id (conn_at store_align c)) [0, 1, 2] = [Some 1, Some 3, Some 5]
   \<and> map (\<lambda>c. ConnectionGene_id (conn_at store_align c)) [3, 4, 5] = [Some 2, Some 3, Some 4]
   \<and> align_connections store_align [0, 1, 2] [3, 4, 5] =
        Inr ([Some 0, None, Some 1, None, Some 2], [None, Some 3, Some 4, Some 5, None])
   \<and> align_connections store_align [3, 4, 5] [0, 1, 2] =
        Inr ([None, Some 3, Some 4, Some 5, None], [Some 0, None, Some 1, None, Some 2])"
proof -
  from align_swap [OF store_align_hyps] obtain a1 a2 where
    a: "align_connections store_align [0, 1, 2] [3, 4, 5] = Inr (a1, a2)"
    and b: "align_connections store_align [3, 4, 5] [0, 1, 2] = Inr (a2, a1)"
    by blast
  from a store_align_value have "a1 = [Some 0, None, Some 1, None, Some 2]"
    and "a2 = [None, Some 3, Some 4, Some 5, None]"
    by simp_all
  with b have "align_connections store_align [3, 4, 5] [0, 1, 2] =
        Inr ([None, Some 3, Some 4, Some 5, None], [Some 0, None, Some 1, None, Some 2])"
    by simp
  with store_align_maps store_align_value show ?thesis by blast
qed

text \<open>
  C2. Under the same conditions, the alignment runs through the ids of both lists in
  strictly ascending order; at the position of an id each result list holds the gene of
  its input list that has this id, or \<^verbatim>\<open>None\<close> if there is none; and every gene of an input
  list stands at exactly one position of its result list.
\<close>

theorem align_by_ascending_id:
  assumes "\<forall>c\<in>set A. ConnectionGene_id (conn_at s c) \<noteq> None"
      and "distinct (map (\<lambda>c. ConnectionGene_id (conn_at s c)) A)"
      and "\<forall>c\<in>set B. ConnectionGene_id (conn_at s c) \<noteq> None"
      and "distinct (map (\<lambda>c. ConnectionGene_id (conn_at s c)) B)"
  shows "\<exists>us a1 a2. align_connections s A B = Inr (a1, a2)
     \<and> sorted_wrt (<) us
     \<and> set us = {k. \<exists>c\<in>set A \<union> set B. ConnectionGene_id (conn_at s c) = Some k}
     \<and> a1 = map (\<lambda>k. find (\<lambda>c. ConnectionGene_id (conn_at s c) = Some k) A) us
     \<and> a2 = map (\<lambda>k. find (\<lambda>c. ConnectionGene_id (conn_at s c) = Some k) B) us
     \<and> (\<forall>c\<in>set A. \<exists>!i. i < length a1 \<and> a1 ! i = Some c)
     \<and> (\<forall>c\<in>set B. \<exists>!i. i < length a2 \<and> a2 ! i = Some c)"
proof -
  let ?id = "\<lambda>c. ConnectionGene_id (conn_at s c)"
  from align_shape [OF assms(1) assms(3)] obtain us where
    us: "sorted us" "distinct us" "Some ` set us = ?id ` (set A \<union> set B)"
    and al: "align_connections s A B =
         Inr (map (\<lambda>k. map_of (con_dict s A) (Some k)) us,
              map (\<lambda>k. map_of (con_dict s B) (Some k)) us)"
    by blast
  let ?a1 = "map (\<lambda>k. find (\<lambda>c. ?id c = Some k) A) us"
  let ?a2 = "map (\<lambda>k. find (\<lambda>c. ?id c = Some k) B) us"
  have al': "align_connections s A B = Inr (?a1, ?a2)"
    by (simp add: al con_dict_lookup [OF assms(2)] con_dict_lookup [OF assms(4)])
  have strict: "sorted_wrt (<) us"
    using us by (simp add: strict_sorted_iff)
  have setus: "set us = {k. \<exists>c\<in>set A \<union> set B. ?id c = Some k}"
  proof (rule set_eqI)
    fix k
    have "k \<in> set us \<longleftrightarrow> Some k \<in> Some ` set us"
      by (simp add: image_iff)
    also have "\<dots> \<longleftrightarrow> Some k \<in> ?id ` (set A \<union> set B)"
      by (simp only: us(3))
    also have "\<dots> \<longleftrightarrow> (\<exists>c\<in>set A \<union> set B. ?id c = Some k)"
      by (metis (no_types, lifting) imageE image_eqI)
    finally show "k \<in> set us \<longleftrightarrow> k \<in> {k. \<exists>c\<in>set A \<union> set B. ?id c = Some k}"
      by simp
  qed
  have once: "\<exists>!i. i < length (map (\<lambda>k. find (\<lambda>c. ?id c = Some k) L) us)
                   \<and> map (\<lambda>k. find (\<lambda>c. ?id c = Some k) L) us ! i = Some c"
    if L: "set L \<subseteq> set A \<union> set B" and d: "distinct (map ?id L)"
      and nn: "\<forall>c\<in>set L. ?id c \<noteq> None" and c: "c \<in> set L" for L c
  proof -
    from c nn obtain k where k: "?id c = Some k" by blast
    with c L have "k \<in> set us" by (auto simp add: setus)
    then obtain i where i: "i < length us" "us ! i = k"
      by (auto simp add: in_set_conv_nth)
    have f: "find (\<lambda>c. ?id c = Some k) L = Some c"
      using find_unique_key [OF d c] by (simp add: k)
    show ?thesis
    proof (rule ex1I [of _ i])
      show "i < length (map (\<lambda>k. find (\<lambda>c. ?id c = Some k) L) us)
          \<and> map (\<lambda>k. find (\<lambda>c. ?id c = Some k) L) us ! i = Some c"
        using i f by simp
    next
      fix j
      assume j: "j < length (map (\<lambda>k. find (\<lambda>c. ?id c = Some k) L) us)
          \<and> map (\<lambda>k. find (\<lambda>c. ?id c = Some k) L) us ! j = Some c"
      then have "find (\<lambda>c. ?id c = Some (us ! j)) L = Some c" by auto
      then have "?id c = Some (us ! j)"
        by (auto simp add: find_Some_iff)
      with k have "us ! j = us ! i" by (simp add: i)
      moreover from j have "j < length us" by simp
      ultimately show "j = i"
        using i(1) us(2) by (metis nth_eq_iff_index_eq)
    qed
  qed
  have "\<forall>c\<in>set A. \<exists>!i. i < length ?a1 \<and> ?a1 ! i = Some c"
    using once [of A] assms(1,2) by blast
  moreover have "\<forall>c\<in>set B. \<exists>!i. i < length ?a2 \<and> ?a2 ! i = Some c"
    using once [of B] assms(3,4) by blast
  ultimately show ?thesis
    using al' strict setus by blast
qed


text \<open>
  For the ids 1, 3, 5 (genes 0, 1, 2) and 2, 3, 4 (genes 3, 4, 5) the theorem fixes the
  positions to the ids 1, 2, 3, 4, 5, with a gene of the first list at 1, 3 and 5 and a
  gene of the second list at 2, 3 and 4.
\<close>

theorem align_by_ascending_id_witness:
  "map (\<lambda>c. ConnectionGene_id (conn_at store_align c)) [0, 1, 2] = [Some 1, Some 3, Some 5]
   \<and> map (\<lambda>c. ConnectionGene_id (conn_at store_align c)) [3, 4, 5] = [Some 2, Some 3, Some 4]
   \<and> align_connections store_align [0, 1, 2] [3, 4, 5] =
        Inr ([Some 0, None, Some 1, None, Some 2], [None, Some 3, Some 4, Some 5, None])"
proof -
  let ?id = "\<lambda>c. ConnectionGene_id (conn_at store_align c)"
  from align_by_ascending_id [OF store_align_hyps] obtain us a1 a2 where
    a: "align_connections store_align [0, 1, 2] [3, 4, 5] = Inr (a1, a2)"
    and s: "sorted_wrt (<) us"
    and u: "set us = {k. \<exists>c\<in>set [0, 1, 2] \<union> set [3, 4, 5]. ?id c = Some k}"
    and a1: "a1 = map (\<lambda>k. find (\<lambda>c. ?id c = Some k) [0, 1, 2]) us"
    and a2: "a2 = map (\<lambda>k. find (\<lambda>c. ?id c = Some k) [3, 4, 5]) us"
    by blast
  have "{k. \<exists>c\<in>set [0, 1, 2] \<union> set [3, 4, 5]. ?id c = Some k} = set [1, 2, 3, 4, 5]"
    by (auto simp add: store_align_ids)
  with u have "set us = set [1, 2, 3, 4, 5]" by simp
  moreover have "sorted [1, 2, 3, 4, 5 :: int]" and "distinct [1, 2, 3, 4, 5 :: int]"
    by simp_all
  ultimately have us: "us = [1, 2, 3, 4, 5]"
    using s by (metis sorted_distinct_set_unique strict_sorted_iff)
  have "a1 = [Some 0, None, Some 1, None, Some 2]"
    by (simp add: a1 us store_align_ids)
  moreover have "a2 = [None, Some 3, Some 4, Some 5, None]"
    by (simp add: a2 us store_align_ids)
  moreover have "map ?id [0, 1, 2] = [Some 1, Some 3, Some 5]"
    and "map ?id [3, 4, 5] = [Some 2, Some 3, Some 4]"
    by (simp_all add: store_align_ids)
  ultimately show ?thesis
    using a by blast
qed

end
